theory Spec2Isabelle
  imports Main "HOL-Library.Sublist" "HOL-Library.Multiset"
begin

section \<open>Cached list responses\<close>

text \<open>
  A query key is the array the generated \<^verbatim>\<open>get...QueryKey()\<close> helpers return; the boards
  page and the board-groups page each use one (\<^verbatim>\<open>boardsKey\<close>, \<^verbatim>\<open>groupsKey\<close>). The helpers
  are generated code, so the key is a parameter of every handler below.
\<close>

type_synonym query_key = "string list"

text \<open>
  \<^verbatim>\<open>BoardRead\<close> and \<^verbatim>\<open>BoardGroupRead\<close>: the handlers read the field \<^verbatim>\<open>id\<close> only; every other
  field lives in the extension of the record.
\<close>

record item =
  item_id :: string

text \<open>
  The body of a successful list response (\<^verbatim>\<open>previous.data\<close>): the handlers read and write
  \<^verbatim>\<open>items\<close> and \<^verbatim>\<open>total\<close>; the spread \<^verbatim>\<open>...previous.data\<close> keeps the rest, which is the
  record update below. \<^verbatim>\<open>total\<close> is a JavaScript number holding an integer.
\<close>

record 'm page =
  items :: "'m item_scheme list"
  total :: int
  limit :: int
  offset :: int

text \<open>
  The generated response type is a union discriminated by \<^verbatim>\<open>status\<close>: the 200 member
  carries the page, the other member (422) carries a validation error. Both carry headers.
\<close>

datatype 'm response =
    Response200 "'m page" "(string \<times> string) list"
  | Response422 string "(string \<times> string) list"

fun status :: "'m response \<Rightarrow> int" where
  "status (Response200 _ _) = 200"
| "status (Response422 _ _) = 422"

section \<open>The query client\<close>

datatype 'm cache_op =
    Cancelled query_key
  | DataSet query_key "'m response"
  | Invalidated query_key

text \<open>
  Modelled from the spec: the Query Cache of section 4.1 (\<^verbatim>\<open>get\<close>, \<^verbatim>\<open>set\<close>, \<^verbatim>\<open>invalidate\<close>,
  \<^verbatim>\<open>cancelInFlight\<close>) is the \<^verbatim>\<open>@tanstack/react-query\<close> client, whose code is not among
  the sources. The state holds the cached value of every key, the reads in flight for
  every key (by request number), the keys marked stale, and the trace of the calls that
  the handlers made on the client, oldest first.
\<close>

record 'm query_client =
  cache :: "query_key \<rightharpoonup> 'm response"
  fetching :: "query_key \<Rightarrow> nat list"
  invalidated :: "query_key \<Rightarrow> bool"
  trace :: "'m cache_op list"

text \<open>
  Modelled from the spec: the key matching of the client (not among the sources). A filter
  \<^verbatim>\<open>{ queryKey }\<close> selects every query whose key starts with the given one.
\<close>

definition matches :: "query_key \<Rightarrow> query_key \<Rightarrow> bool" where
  "matches k k' = prefix k k'"

text \<open>
  Modelled from the spec: \<^verbatim>\<open>get(key)\<close> of section 4.1, the client's \<^verbatim>\<open>getQueryData\<close> (not among
  the sources); no value for a key that was never written.
\<close>

definition getQueryData :: "'m query_client \<Rightarrow> query_key \<Rightarrow> 'm response option" where
  "getQueryData c k = cache c k"

text \<open>
  Modelled from the spec: \<^verbatim>\<open>set(key, entry)\<close> of section 4.1, the client's \<^verbatim>\<open>setQueryData\<close>
  (not among the sources). The written value is fresh.
\<close>

definition setQueryData :: "'m query_client \<Rightarrow> query_key \<Rightarrow> 'm response \<Rightarrow> 'm query_client" where
  "setQueryData c k v =
     c\<lparr>cache := (cache c)(k \<mapsto> v),
       invalidated := (invalidated c)(k := False),
       trace := trace c @ [DataSet k v]\<rparr>"

text \<open>
  Modelled from the spec: \<^verbatim>\<open>cancelInFlight(key)\<close> of section 4.1, the client's
  \<^verbatim>\<open>cancelQueries\<close> (not among the sources): it "aborts an outstanding fetch for that key".
\<close>

definition cancelQueries :: "'m query_client \<Rightarrow> query_key \<Rightarrow> 'm query_client" where
  "cancelQueries c k =
     c\<lparr>fetching := (\<lambda>k'. if matches k k' then [] else fetching c k'),
       trace := trace c @ [Cancelled k]\<rparr>"

text \<open>
  Modelled from the spec: \<^verbatim>\<open>invalidate(key)\<close> of section 4.1, the client's
  \<^verbatim>\<open>invalidateQueries\<close> (not among the sources): it "marks entry stale and schedules a
  re-fetch".
\<close>

definition invalidateQueries :: "'m query_client \<Rightarrow> query_key \<Rightarrow> 'm query_client" where
  "invalidateQueries c k =
     c\<lparr>invalidated := (\<lambda>k'. if matches k k' then True else invalidated c k'),
       trace := trace c @ [Invalidated k]\<rparr>"

text \<open>
  Modelled from the spec: the arrival of the response of read number \<open>n\<close> for key \<open>k\<close>
  (the client is not among the sources). It is written to the cache when that read is
  still in flight; "an in-flight read is cancelled (its eventual response ignored)"
  (section 5).
\<close>

definition readResolved :: "'m query_client \<Rightarrow> query_key \<Rightarrow> nat \<Rightarrow> 'm response \<Rightarrow> 'm query_client" where
  "readResolved c k n v =
     (if n \<in> set (fetching c k)
      then c\<lparr>cache := (cache c)(k \<mapsto> v),
             fetching := (fetching c)(k := removeAll n (fetching c k)),
             invalidated := (invalidated c)(k := False)\<rparr>
      else c)"

section \<open>The delete mutation of the boards and board-groups pages\<close>

text \<open>The mutation context \<^verbatim>\<open>{ previous?: ...Response }\<close>.\<close>

record 'm mutation_context =
  previous :: "'m response option"

text \<open>
  \<^verbatim>\<open>deleteMutation.onMutate\<close> (boards/page.tsx 106-130, board-groups/page.tsx 69-93). The
  two are the same code up to the names \<^verbatim>\<open>boardId\<close>/\<^verbatim>\<open>groupId\<close> and the key. The test
  \<^verbatim>\<open>previous && previous.status === 200\<close> selects the 200 member of the response union,
  which is the first case below.
\<close>

definition onMutate :: "query_key \<Rightarrow> 'm query_client \<Rightarrow> string \<Rightarrow> 'm query_client \<times> 'm mutation_context" where
  "onMutate key c targetId =
     (let c1 = cancelQueries c key;
          prev = getQueryData c1 key
      in case prev of
           Some (Response200 pg hs) \<Rightarrow>
             (let nextItems = filter (\<lambda>b. item_id b \<noteq> targetId) (items pg);
                  removedCount = int (length (items pg)) - int (length nextItems)
              in (setQueryData c1 key
                    (Response200 (pg\<lparr>items := nextItems,
                                      total := max 0 (total pg - removedCount)\<rparr>) hs),
                  \<lparr>previous = prev\<rparr>))
         | _ \<Rightarrow> (c1, \<lparr>previous = prev\<rparr>))"

text \<open>
  \<^verbatim>\<open>onMutate\<close> is an \<^verbatim>\<open>async\<close> function: it runs up to \<^verbatim>\<open>await queryClient.cancelQueries(...)\<close>
  when it is called, and the rest of its body (lines 108-129 of boards/page.tsx, 71-92 of
  board-groups/page.tsx) runs when the awaited promise has resolved. This is the rest,
  run on the client as it is then.
\<close>

definition onMutate_resume :: "query_key \<Rightarrow> 'm query_client \<Rightarrow> string \<Rightarrow> 'm query_client \<times> 'm mutation_context" where
  "onMutate_resume key c1 targetId =
     (let prev = getQueryData c1 key
      in case prev of
           Some (Response200 pg hs) \<Rightarrow>
             (let nextItems = filter (\<lambda>b. item_id b \<noteq> targetId) (items pg);
                  removedCount = int (length (items pg)) - int (length nextItems)
              in (setQueryData c1 key
                    (Response200 (pg\<lparr>items := nextItems,
                                      total := max 0 (total pg - removedCount)\<rparr>) hs),
                  \<lparr>previous = prev\<rparr>))
         | _ \<Rightarrow> (c1, \<lparr>previous = prev\<rparr>))"

text \<open>
  \<^verbatim>\<open>deleteMutation.onError\<close>: \<^verbatim>\<open>if (context?.previous) setQueryData(key, context.previous)\<close>.
  The context is absent when \<^verbatim>\<open>onMutate\<close> did not return one.
\<close>

definition onError :: "query_key \<Rightarrow> 'm query_client \<Rightarrow> 'm mutation_context option \<Rightarrow> 'm query_client" where
  "onError key c ctx =
     (case ctx of
        None \<Rightarrow> c
      | Some cx \<Rightarrow> (case previous cx of None \<Rightarrow> c | Some p \<Rightarrow> setQueryData c key p))"

text \<open>\<^verbatim>\<open>deleteMutation.onSettled\<close>.\<close>

definition onSettled :: "query_key \<Rightarrow> 'm query_client \<Rightarrow> 'm query_client" where
  "onSettled key c = invalidateQueries c key"

text \<open>
  The state of a page: the query client, the row picked for deletion
  (\<^verbatim>\<open>useState<BoardRead | null>\<close>) and the delete mutations that have not settled, oldest
  first, each with its variables and, once its \<^verbatim>\<open>onMutate\<close> has returned, the context.
\<close>

record 'm page_state =
  queryClient :: "'m query_client"
  deleteTarget :: "'m item_scheme option"
  pending :: "(string \<times> 'm mutation_context option) list"

text \<open>\<^verbatim>\<open>deleteMutation.onSuccess\<close>: \<^verbatim>\<open>setDeleteTarget(null)\<close>.\<close>

definition onSuccess :: "'m page_state \<Rightarrow> 'm page_state" where
  "onSuccess st = st\<lparr>deleteTarget := None\<rparr>"

text \<open>
  \<^verbatim>\<open>deleteMutation.mutate(variables)\<close>. The mutation hook is the one of
  \<^verbatim>\<open>@tanstack/react-query\<close>, a library outside the repository. The call starts a
  mutation, which is pending from then on, and the page's \<^verbatim>\<open>onMutate\<close> runs up to its
  \<^verbatim>\<open>await\<close>: when \<^verbatim>\<open>mutate\<close> returns, \<^verbatim>\<open>cancelQueries\<close> has been called and nothing else.
  The mutation has no context yet.
\<close>

definition mutate :: "query_key \<Rightarrow> 'm page_state \<Rightarrow> string \<Rightarrow> 'm page_state" where
  "mutate key st targetId =
     st\<lparr>queryClient := cancelQueries (queryClient st) key,
        pending := pending st @ [(targetId, None)]\<rparr>"

text \<open>\<^verbatim>\<open>handleDelete\<close> (boards/page.tsx 147-150, board-groups/page.tsx 110-113).\<close>

definition handleDelete :: "query_key \<Rightarrow> 'm page_state \<Rightarrow> 'm page_state" where
  "handleDelete key st =
     (case deleteTarget st of
        None \<Rightarrow> st
      | Some t \<Rightarrow> mutate key st (item_id t))"

text \<open>
  The remote call of a mutation settles. The library calls the handlers the page passed
  to the hook: \<^verbatim>\<open>onSuccess\<close> when the call succeeded, \<^verbatim>\<open>onError\<close> with the context when it
  failed, and then \<^verbatim>\<open>onSettled\<close> in both cases.
\<close>

datatype outcome = Succeeded | Failed

definition settle :: "query_key \<Rightarrow> outcome \<Rightarrow> 'm mutation_context option \<Rightarrow> 'm page_state \<Rightarrow> 'm page_state" where
  "settle key out ctx st =
     (case out of
        Succeeded \<Rightarrow>
          (let st1 = onSuccess st
           in st1\<lparr>queryClient := onSettled key (queryClient st1)\<rparr>)
      | Failed \<Rightarrow>
          st\<lparr>queryClient := onSettled key (onError key (queryClient st) ctx)\<rparr>)"

text \<open>
  \<^verbatim>\<open>deleteMutation.isPending\<close>: the hook is pending from the call of \<^verbatim>\<open>mutate\<close> until the
  mutation has settled.
\<close>

definition isPending :: "'m page_state \<Rightarrow> bool" where
  "isPending st = (pending st \<noteq> [])"

text \<open>
  The confirm button of the dialog, the only caller of \<^verbatim>\<open>handleDelete\<close>
  (boards/page.tsx 350, board-groups/page.tsx 296):
  \<^verbatim>\<open><Button onClick={handleDelete} disabled={deleteMutation.isPending}>\<close>. A click on
  a disabled button calls no handler.
\<close>

definition confirmClick :: "query_key \<Rightarrow> 'm page_state \<Rightarrow> 'm page_state" where
  "confirmClick key st = (if isPending st then st else handleDelete key st)"

text \<open>
  The rest of \<^verbatim>\<open>onMutate\<close> runs for the oldest mutation that has no context yet; what it
  returns becomes the context of that mutation, and the library issues the remote call.
\<close>

fun first_waiting :: "(string \<times> 'c option) list \<Rightarrow> string option" where
  "first_waiting [] = None"
| "first_waiting ((targetId, None) # ps) = Some targetId"
| "first_waiting ((targetId, Some ctx) # ps) = first_waiting ps"

fun attach_context :: "'c \<Rightarrow> (string \<times> 'c option) list \<Rightarrow> (string \<times> 'c option) list" where
  "attach_context ctx [] = []"
| "attach_context ctx ((targetId, None) # ps) = (targetId, Some ctx) # ps"
| "attach_context ctx ((targetId, Some ctx') # ps) = (targetId, Some ctx') # attach_context ctx ps"

definition onMutateReturned :: "query_key \<Rightarrow> 'm page_state \<Rightarrow> 'm page_state" where
  "onMutateReturned key st =
     (case first_waiting (pending st) of
        None \<Rightarrow> st
      | Some targetId \<Rightarrow>
          (let (c, ctx) = onMutate_resume key (queryClient st) targetId
           in st\<lparr>queryClient := c, pending := attach_context ctx (pending st)\<rparr>))"

text \<open>
  The remote call of the oldest pending mutation settles: the handlers run with the
  context of that mutation, and the mutation is pending no longer. A mutation whose
  \<^verbatim>\<open>onMutate\<close> has not returned has no remote call yet.
\<close>

definition mutationSettled :: "query_key \<Rightarrow> outcome \<Rightarrow> 'm page_state \<Rightarrow> 'm page_state" where
  "mutationSettled key out st =
     (case pending st of
        (targetId, Some ctx) # rest \<Rightarrow> (settle key out (Some ctx) st)\<lparr>pending := rest\<rparr>
      | _ \<Rightarrow> st)"

text \<open>
  What can happen on the page around a delete: a click on the delete button of a row
  (\<^verbatim>\<open>setDeleteTarget(row.original)\<close>), closing the dialog (\<^verbatim>\<open>setDeleteTarget(null)\<close>), a
  click on the confirm button, the return of \<^verbatim>\<open>onMutate\<close>, and the remote call settling.
\<close>

datatype 'm page_event =
    PickRow "'m item_scheme"
  | CloseDialog
  | ConfirmClick
  | OnMutateReturned
  | Settled outcome

fun step :: "query_key \<Rightarrow> 'm page_state \<Rightarrow> 'm page_event \<Rightarrow> 'm page_state" where
  "step key st (PickRow row) = st\<lparr>deleteTarget := Some row\<rparr>"
| "step key st CloseDialog = st\<lparr>deleteTarget := None\<rparr>"
| "step key st ConfirmClick = confirmClick key st"
| "step key st OnMutateReturned = onMutateReturned key st"
| "step key st (Settled out) = mutationSettled key out st"

section \<open>The kanban page\<close>

text \<open>
  kanban/page.tsx. A task of the list the page reads: the page uses \<^verbatim>\<open>id\<close>, \<^verbatim>\<open>title\<close>,
  \<^verbatim>\<open>status\<close> and \<^verbatim>\<open>assignee_employee_id\<close>, each of which may be missing; the other fields
  are the extension of the record.
\<close>

record task =
  task_id :: "int option"
  task_title :: string
  task_status :: "string option"
  assignee_employee_id :: "int option"

definition STATUSES :: "string list" where
  "STATUSES = [''backlog'', ''ready'', ''in_progress'', ''review'', ''blocked'', ''done'']"

text \<open>\<^verbatim>\<open>String(n)\<close> for an integer \<open>n\<close>: its decimal digits, with a minus sign when negative.\<close>

definition digit_char :: "nat \<Rightarrow> char" where
  "digit_char n = ''0123456789'' ! (n mod 10)"

fun decimal :: "nat \<Rightarrow> string" where
  "decimal n = (if n < 10 then [digit_char n] else decimal (n div 10) @ [digit_char (n mod 10)])"

declare decimal.simps [simp del]

definition String_number :: "int \<Rightarrow> string" where
  "String_number i = (if i < 0 then CHR ''-'' # decimal (nat (- i)) else decimal (nat i))"

text \<open>
  The comparator of line 71, \<^verbatim>\<open>String(a.id ?? 0).localeCompare(String(b.id ?? 0))\<close>.
  \<^verbatim>\<open>localeCompare\<close> depends on the locale of the browser, so it is a parameter: negative,
  zero or positive as the first string sorts before, with or after the second.
\<close>

definition compareFn :: "(string \<Rightarrow> string \<Rightarrow> int) \<Rightarrow> 'm task_scheme \<Rightarrow> 'm task_scheme \<Rightarrow> int" where
  "compareFn localeCompare a b =
     localeCompare (String_number (case task_id a of None \<Rightarrow> 0 | Some i \<Rightarrow> i))
                   (String_number (case task_id b of None \<Rightarrow> 0 | Some i \<Rightarrow> i))"

text \<open>
  \<^verbatim>\<open>Array.prototype.sort(compareFn)\<close>: a stable sort, written as insertion from the right.
  An element goes before the first one it does not sort after, so equal elements keep
  their order.
\<close>

fun sort_insert :: "('a \<Rightarrow> 'a \<Rightarrow> int) \<Rightarrow> 'a \<Rightarrow> 'a list \<Rightarrow> 'a list" where
  "sort_insert cmp x [] = [x]"
| "sort_insert cmp x (y # ys) = (if cmp x y \<le> 0 then x # y # ys else y # sort_insert cmp x ys)"

definition array_sort :: "('a \<Rightarrow> 'a \<Rightarrow> int) \<Rightarrow> 'a list \<Rightarrow> 'a list" where
  "array_sort cmp xs = foldr (sort_insert cmp) xs []"

text \<open>
  Line 65-66: \<^verbatim>\<open>const s = t.status ?? "backlog"; (map.get(s) ?? map.get("backlog"))?.push(t)\<close>.
\<close>

definition push_task :: "(string \<rightharpoonup> 'm task_scheme list) \<Rightarrow> 'm task_scheme \<Rightarrow> (string \<rightharpoonup> 'm task_scheme list)" where
  "push_task m t =
     (let s = (case task_status t of None \<Rightarrow> ''backlog'' | Some x \<Rightarrow> x)
      in case m s of
           Some arr \<Rightarrow> m(s \<mapsto> arr @ [t])
         | None \<Rightarrow>
             (case m ''backlog'' of
                Some arr \<Rightarrow> m(''backlog'' \<mapsto> arr @ [t])
              | None \<Rightarrow> m))"

text \<open>Line 69-72: \<^verbatim>\<open>const arr = map.get(s) ?? []; arr.sort(...)\<close>, in place.\<close>

definition sort_column :: "('m task_scheme \<Rightarrow> 'm task_scheme \<Rightarrow> int) \<Rightarrow> (string \<rightharpoonup> 'm task_scheme list) \<Rightarrow> string \<Rightarrow> (string \<rightharpoonup> 'm task_scheme list)" where
  "sort_column cmp m s =
     (case m s of
        Some arr \<Rightarrow> m(s \<mapsto> array_sort cmp arr)
      | None \<Rightarrow> m)"

text \<open>\<^verbatim>\<open>tasksByStatus\<close> (kanban/page.tsx 61-74), a \<^verbatim>\<open>Map\<close> from status to the tasks of the column.\<close>

definition tasksByStatus :: "(string \<Rightarrow> string \<Rightarrow> int) \<Rightarrow> 'm task_scheme list \<Rightarrow> (string \<rightharpoonup> 'm task_scheme list)" where
  "tasksByStatus localeCompare filtered =
     (let m0 = foldl (\<lambda>m s. m(s \<mapsto> [])) Map.empty STATUSES;
          m1 = foldl push_task m0 filtered;
          m2 = foldl (sort_column (compareFn localeCompare)) m1 STATUSES
      in m2)"

text \<open>The column a task ends in: its status when that is one of \<^verbatim>\<open>STATUSES\<close>, else backlog.\<close>

definition column_of :: "'m task_scheme \<Rightarrow> string" where
  "column_of t =
     (case task_status t of
        None \<Rightarrow> ''backlog''
      | Some s \<Rightarrow> if s \<in> set STATUSES then s else ''backlog'')"

section \<open>The task board\<close>

text \<open>
  The \<^verbatim>\<open>Task\<close> type of TaskBoard.test.tsx, with the fields the classification reads.
  \<^verbatim>\<open>approvals_pending_count\<close> is a count.
\<close>

record board_task =
  bt_id :: string
  bt_title :: string
  bt_status :: string
  approvals_pending_count :: nat
  blocked_by_task_ids :: "string list"
  is_blocked :: bool

datatype triage_bucket = Blocked | Approval_needed | Lead_review

text \<open>
  Modelled from the spec: the component TaskBoard.tsx is not among the sources (its test
  is). Section 4.4 gives the triage rules as an ordered list, "a task is classified
  into the first matching bucket and no other": blocked when \<^verbatim>\<open>is_blocked\<close> is true;
  approval_needed when \<^verbatim>\<open>approvals_pending_count > 0\<close>; lead_review when the status is
  review, the task is not blocked and has zero pending approvals.
\<close>

definition triage_rules :: "(triage_bucket \<times> (board_task \<Rightarrow> bool)) list" where
  "triage_rules =
     [(Blocked, \<lambda>t. is_blocked t),
      (Approval_needed, \<lambda>t. approvals_pending_count t > 0),
      (Lead_review, \<lambda>t. bt_status t = ''review'' \<and> \<not> is_blocked t \<and> approvals_pending_count t = 0)]"

fun first_match :: "(triage_bucket \<times> (board_task \<Rightarrow> bool)) list \<Rightarrow> board_task \<Rightarrow> triage_bucket option" where
  "first_match [] t = None"
| "first_match ((b, cond) # rules) t = (if cond t then Some b else first_match rules t)"

text \<open>
  Modelled from the spec: the triage classification "applies only within the review
  column", so a task of another column has no bucket.
\<close>

definition classify :: "board_task \<Rightarrow> triage_bucket option" where
  "classify t = (if bt_status t = ''review'' then first_match triage_rules t else None)"

text \<open>
  Modelled from the spec: the filter of the review column. \<^verbatim>\<open>all\<close> is "a pseudo-bucket
  equal to the union of all review-column tasks"; a bucket shows the tasks classified
  into it.
\<close>

datatype review_filter = All | Only triage_bucket

definition review_column :: "board_task list \<Rightarrow> board_task list" where
  "review_column tasks = filter (\<lambda>t. bt_status t = ''review'') tasks"

definition review_view :: "review_filter \<Rightarrow> board_task list \<Rightarrow> board_task list" where
  "review_view f tasks =
     (case f of
        All \<Rightarrow> review_column tasks
      | Only b \<Rightarrow> filter (\<lambda>t. classify t = Some b) (review_column tasks))"

text \<open>
  Modelled from the spec: the drop handler of TaskBoard.tsx (not among the sources; the
  test calls it through \<^verbatim>\<open>onTaskMove\<close>). Section 4.4 and 6: \<^verbatim>\<open>onDrop(taskId, sourceStatus,
  destinationStatus)\<close>; "if source equals destination, no mutation is issued. Otherwise
  it issues a status-change mutation with the single affected field status =
  destination". The result is the list of the mutations issued.
\<close>

record status_mutation =
  mutation_task :: string
  changed_fields :: "(string \<times> string) list"

definition onDrop :: "string \<Rightarrow> string \<Rightarrow> string \<Rightarrow> status_mutation list" where
  "onDrop taskId sourceStatus destinationStatus =
     (if sourceStatus = destinationStatus then []
      else [\<lparr>mutation_task = taskId, changed_fields = [(''status'', destinationStatus)]\<rparr>])"

section \<open>The live stream merge\<close>

text \<open>
  An item of the activity feed (the fixture of activity_feed.cy.ts): its id, its
  \<^verbatim>\<open>created_at\<close> as a timestamp, and its text.
\<close>

record feed_item =
  feed_id :: string
  created_at :: int
  message :: string

text \<open>The part of a QueryEntry (section 3) the merge works on: \<^verbatim>\<open>data\<close> and \<^verbatim>\<open>total\<close>.\<close>

record query_entry =
  entry_data :: "feed_item list"
  entry_total :: int

text \<open>
  Modelled from the spec: the page that merges the stream is not among the sources (its
  end-to-end test is). Section 4.3: "if an item with the same id already exists in the
  target QueryEntry's data, replace it in place (position unchanged)".
\<close>

fun replace_in_place :: "feed_item \<Rightarrow> feed_item list \<Rightarrow> feed_item list" where
  "replace_in_place e [] = []"
| "replace_in_place e (x # xs) = (if feed_id x = feed_id e then e # xs else x # replace_in_place e xs)"

text \<open>
  Modelled from the spec: "otherwise insert it at the position implied by descending
  created_at (newest first) relative to existing entries; ties break by arrival order".
  The event goes before the first entry that is not newer than it.
\<close>

fun insert_newest_first :: "feed_item \<Rightarrow> feed_item list \<Rightarrow> feed_item list" where
  "insert_newest_first e [] = [e]"
| "insert_newest_first e (x # xs) =
     (if created_at x \<le> created_at e then e # x # xs else x # insert_newest_first e xs)"

text \<open>
  Modelled from the spec: the event merge rule of section 4.3; "total increments by 1
  only for a genuine insert, never for a replace".
\<close>

definition merge_event :: "feed_item \<Rightarrow> query_entry \<Rightarrow> query_entry" where
  "merge_event e q =
     (if feed_id e \<in> set (map feed_id (entry_data q))
      then q\<lparr>entry_data := replace_in_place e (entry_data q)\<rparr>
      else q\<lparr>entry_data := insert_newest_first e (entry_data q),
             entry_total := entry_total q + 1\<rparr>)"

section \<open>Example values\<close>

definition boardsKey :: query_key where
  "boardsKey = [''/api/v1/boards'']"

definition two_boards :: "unit page" where
  "two_boards =
     \<lparr>items = [\<lparr>item_id = ''b1''\<rparr>, \<lparr>item_id = ''b2''\<rparr>], total = 2, limit = 50, offset = 0\<rparr>"

definition client_200 :: "unit query_client" where
  "client_200 =
     \<lparr>cache = [boardsKey \<mapsto> Response200 two_boards []],
      fetching = (\<lambda>k. if k = boardsKey then [7] else []),
      invalidated = (\<lambda>k. False),
      trace = []\<rparr>"

definition client_422 :: "unit query_client" where
  "client_422 =
     \<lparr>cache = [boardsKey \<mapsto> Response422 ''detail'' []],
      fetching = (\<lambda>k. []),
      invalidated = (\<lambda>k. False),
      trace = []\<rparr>"

definition client_empty :: "unit query_client" where
  "client_empty =
     \<lparr>cache = Map.empty, fetching = (\<lambda>k. []), invalidated = (\<lambda>k. False), trace = []\<rparr>"

definition picked_b1 :: "unit page_state" where
  "picked_b1 = \<lparr>queryClient = client_200, deleteTarget = Some \<lparr>item_id = ''b1''\<rparr>, pending = []\<rparr>"

text \<open>
  A comparator for the examples: the order of the code units, first difference decides.
\<close>

fun codeunit_compare :: "string \<Rightarrow> string \<Rightarrow> int" where
  "codeunit_compare [] [] = 0"
| "codeunit_compare [] (y # ys) = - 1"
| "codeunit_compare (x # xs) [] = 1"
| "codeunit_compare (x # xs) (y # ys) =
     (if (of_char x :: nat) < of_char y then - 1
      else if (of_char y :: nat) < of_char x then 1
      else codeunit_compare xs ys)"

definition task_blocked :: "unit task_scheme" where
  "task_blocked =
     \<lparr>task_id = Some 1, task_title = ''A'', task_status = Some ''blocked'',
      assignee_employee_id = None\<rparr>"

definition task_archived :: "unit task_scheme" where
  "task_archived =
     \<lparr>task_id = Some 2, task_title = ''B'', task_status = Some ''archived'',
      assignee_employee_id = None\<rparr>"

text \<open>The three review tasks of TaskBoard.test.tsx, and one that is blocked and awaits approval.\<close>

definition review_blocked :: board_task where
  "review_blocked =
     \<lparr>bt_id = ''blocked'', bt_title = ''Blocked Review'', bt_status = ''review'',
      approvals_pending_count = 0, blocked_by_task_ids = [''dep-1''], is_blocked = True\<rparr>"

definition review_approval :: board_task where
  "review_approval =
     \<lparr>bt_id = ''approval'', bt_title = ''Needs Approval'', bt_status = ''review'',
      approvals_pending_count = 2, blocked_by_task_ids = [], is_blocked = False\<rparr>"

definition review_lead :: board_task where
  "review_lead =
     \<lparr>bt_id = ''lead'', bt_title = ''Lead Review'', bt_status = ''review'',
      approvals_pending_count = 0, blocked_by_task_ids = [], is_blocked = False\<rparr>"

definition review_both :: board_task where
  "review_both =
     \<lparr>bt_id = ''both'', bt_title = ''Blocked and unapproved'', bt_status = ''review'',
      approvals_pending_count = 2, blocked_by_task_ids = [''dep-1''], is_blocked = True\<rparr>"

text \<open>Two comments of the activity feed and an entry that holds them, newest first.\<close>

definition comment_c1 :: feed_item where
  "comment_c1 = \<lparr>feed_id = ''c1'', created_at = 100, message = ''Hello world''\<rparr>"

definition comment_c2 :: feed_item where
  "comment_c2 = \<lparr>feed_id = ''c2'', created_at = 160, message = ''Second comment''\<rparr>"

definition comment_c3 :: feed_item where
  "comment_c3 = \<lparr>feed_id = ''c3'', created_at = 130, message = ''Third comment''\<rparr>"

definition feed_entry :: query_entry where
  "feed_entry = \<lparr>entry_data = [comment_c2, comment_c1], entry_total = 2\<rparr>"

section \<open>The optimistic patch\<close>

lemma length_filter_split:
  "int (length xs) - int (length (filter (\<lambda>b. \<not> P b) xs)) = int (length (filter P xs))"
proof -
  have "length xs = length (filter P xs) + length (filter (\<lambda>b. \<not> P b) xs)"
    by (rule sum_length_filter_compl [symmetric])
  then show ?thesis by simp
qed

lemma status_200: "status r = 200 \<longleftrightarrow> (\<exists>pg hs. r = Response200 pg hs)"
  by (cases r) simp_all

lemma onMutate_200:
  assumes "cache c key = Some (Response200 pg hs)"
  shows "onMutate key c targetId =
           (setQueryData (cancelQueries c key) key
              (Response200
                 (pg\<lparr>items := filter (\<lambda>b. item_id b \<noteq> targetId) (items pg),
                    total := max 0 (total pg
                               - int (length (filter (\<lambda>b. item_id b = targetId) (items pg))))\<rparr>)
                 hs),
            \<lparr>previous = Some (Response200 pg hs)\<rparr>)"
  using assms length_filter_split [of "items pg" "\<lambda>b. item_id b = targetId"]
  by (simp add: onMutate_def getQueryData_def cancelQueries_def Let_def)

text \<open>
  C1. When the cached response of the list is a 200 response, the optimistic patch of a
  delete keeps every field of the page except \<^verbatim>\<open>items\<close> and \<^verbatim>\<open>total\<close>, removes exactly the
  items whose id is the deleted id, and lowers \<^verbatim>\<open>total\<close> by the number of items removed,
  clamped at zero. Deleting an id that is not in the cached items leaves the items as
  they are and \<^verbatim>\<open>total\<close> at \<^verbatim>\<open>max 0 total\<close>, which is \<^verbatim>\<open>total\<close> itself for a count that is
  not negative.
\<close>

theorem onMutate_patch:
  assumes "getQueryData c key = Some (Response200 pg hs)"
  shows "\<exists>pg'. getQueryData (fst (onMutate key c targetId)) key = Some (Response200 pg' hs)
           \<and> pg' = pg\<lparr>items := items pg', total := total pg'\<rparr>
           \<and> items pg' = filter (\<lambda>b. item_id b \<noteq> targetId) (items pg)
           \<and> int (length (items pg)) - int (length (items pg'))
               = int (length (filter (\<lambda>b. item_id b = targetId) (items pg)))
           \<and> total pg' = max 0 (total pg - (int (length (items pg)) - int (length (items pg'))))
           \<and> 0 \<le> total pg'
           \<and> (targetId \<notin> item_id ` set (items pg) \<longrightarrow>
                 items pg' = items pg \<and> total pg' = max 0 (total pg))
           \<and> (targetId \<notin> item_id ` set (items pg) \<and> 0 \<le> total pg \<longrightarrow>
                 total pg' = total pg)"
proof -
  let ?gone = "filter (\<lambda>b. item_id b = targetId) (items pg)"
  let ?kept = "filter (\<lambda>b. item_id b \<noteq> targetId) (items pg)"
  let ?pg' = "pg\<lparr>items := ?kept, total := max 0 (total pg - int (length ?gone))\<rparr>"
  have c: "cache c key = Some (Response200 pg hs)"
    using assms by (simp add: getQueryData_def)
  have stored: "getQueryData (fst (onMutate key c targetId)) key = Some (Response200 ?pg' hs)"
    by (simp add: onMutate_200 [OF c] getQueryData_def setQueryData_def)
  have removed: "int (length (items pg)) - int (length ?kept) = int (length ?gone)"
    using length_filter_split [of "items pg" "\<lambda>b. item_id b = targetId"] by simp
  have absent_kept: "targetId \<notin> item_id ` set (items pg) \<Longrightarrow> ?kept = items pg"
    by (rule filter_True) auto
  have absent_gone: "targetId \<notin> item_id ` set (items pg) \<Longrightarrow> ?gone = []"
    by (rule filter_False) auto
  have "getQueryData (fst (onMutate key c targetId)) key = Some (Response200 ?pg' hs)
           \<and> ?pg' = pg\<lparr>items := items ?pg', total := total ?pg'\<rparr>
           \<and> items ?pg' = filter (\<lambda>b. item_id b \<noteq> targetId) (items pg)
           \<and> int (length (items pg)) - int (length (items ?pg'))
               = int (length (filter (\<lambda>b. item_id b = targetId) (items pg)))
           \<and> total ?pg' = max 0 (total pg - (int (length (items pg)) - int (length (items ?pg'))))
           \<and> 0 \<le> total ?pg'
           \<and> (targetId \<notin> item_id ` set (items pg) \<longrightarrow>
                 items ?pg' = items pg \<and> total ?pg' = max 0 (total pg))
           \<and> (targetId \<notin> item_id ` set (items pg) \<and> 0 \<le> total pg \<longrightarrow>
                 total ?pg' = total pg)"
    using stored removed absent_kept absent_gone by simp
  then show ?thesis by blast
qed

theorem onMutate_patch_witness:
  "getQueryData client_200 boardsKey = Some (Response200 two_boards [])
   \<and> (\<exists>pg'. getQueryData (fst (onMutate boardsKey client_200 ''b1'')) boardsKey
               = Some (Response200 pg' [])
             \<and> items pg' = [\<lparr>item_id = ''b2''\<rparr>] \<and> total pg' = 1)
   \<and> ''b9'' \<notin> item_id ` set (items two_boards) \<and> 0 \<le> total two_boards
   \<and> (\<exists>pg'. getQueryData (fst (onMutate boardsKey client_200 ''b9'')) boardsKey
               = Some (Response200 pg' [])
             \<and> items pg' = items two_boards \<and> total pg' = 2)"
proof -
  have h: "getQueryData client_200 boardsKey = Some (Response200 two_boards [])"
    by (simp add: getQueryData_def client_200_def)
  have a: "''b9'' \<notin> item_id ` set (items two_boards)" "0 \<le> total two_boards"
    by (simp_all add: two_boards_def)
  from onMutate_patch [OF h, of "''b1''"]
  have r1: "\<exists>pg'. getQueryData (fst (onMutate boardsKey client_200 ''b1'')) boardsKey
               = Some (Response200 pg' [])
             \<and> items pg' = [\<lparr>item_id = ''b2''\<rparr>] \<and> total pg' = 1"
    by (auto simp add: two_boards_def)
  from onMutate_patch [OF h, of "''b9''"] a
  have r2: "\<exists>pg'. getQueryData (fst (onMutate boardsKey client_200 ''b9'')) boardsKey
               = Some (Response200 pg' [])
             \<and> items pg' = items two_boards \<and> total pg' = 2"
    by (auto simp add: two_boards_def)
  show ?thesis using h a r1 r2 by blast
qed

section \<open>Rollback\<close>

lemma onMutate_snapshot: "previous (snd (onMutate key c targetId)) = getQueryData c key"
  by (simp add: onMutate_def getQueryData_def cancelQueries_def Let_def
           split: option.splits response.splits)

lemma getQueryData_setQueryData: "getQueryData (setQueryData c key v) key = Some v"
  by (simp add: getQueryData_def setQueryData_def)

lemma getQueryData_invalidateQueries:
  "getQueryData (invalidateQueries c key) k = getQueryData c k"
  by (simp add: getQueryData_def invalidateQueries_def)

text \<open>
  C2. When a delete was submitted on a cached 200 response (so the optimistic patch was
  applied), the context holds that response as it was at submit time, and the error
  handler stores exactly that value under the key again, whatever state the client is
  in when the failure arrives; it is still the cached value once \<^verbatim>\<open>onSettled\<close> has run.
\<close>

theorem onError_restores_snapshot:
  assumes "getQueryData c key = Some (Response200 pg hs)"
  shows "previous (snd (onMutate key c targetId)) = Some (Response200 pg hs)
         \<and> getQueryData (onError key (fst (onMutate key c targetId))
                            (Some (snd (onMutate key c targetId)))) key
             = Some (Response200 pg hs)
         \<and> getQueryData (onError key c' (Some (snd (onMutate key c targetId)))) key
             = getQueryData c key
         \<and> getQueryData (queryClient (settle key Failed (Some (snd (onMutate key c targetId))) st)) key
             = getQueryData c key"
proof -
  have snap: "previous (snd (onMutate key c targetId)) = Some (Response200 pg hs)"
    using assms by (simp add: onMutate_snapshot)
  have restored: "getQueryData (onError key d (Some (snd (onMutate key c targetId)))) key
                = Some (Response200 pg hs)" for d
    using snap by (simp add: onError_def getQueryData_setQueryData)
  have settled: "getQueryData (queryClient (settle key Failed (Some (snd (onMutate key c targetId))) st)) key
                = Some (Response200 pg hs)"
    using restored [of "queryClient st"]
    by (simp add: settle_def onSettled_def getQueryData_invalidateQueries)
  show ?thesis using snap restored settled assms by simp
qed

theorem onError_restores_snapshot_witness:
  "getQueryData client_200 boardsKey = Some (Response200 two_boards [])
   \<and> getQueryData (fst (onMutate boardsKey client_200 ''b1'')) boardsKey
       \<noteq> Some (Response200 two_boards [])
   \<and> getQueryData (onError boardsKey (fst (onMutate boardsKey client_200 ''b1''))
                      (Some (snd (onMutate boardsKey client_200 ''b1'')))) boardsKey
       = Some (Response200 two_boards [])"
proof -
  have h: "getQueryData client_200 boardsKey = Some (Response200 two_boards [])"
    by (simp add: getQueryData_def client_200_def)
  have patched: "getQueryData (fst (onMutate boardsKey client_200 ''b1'')) boardsKey
       \<noteq> Some (Response200 two_boards [])"
    by (simp add: onMutate_def getQueryData_def cancelQueries_def setQueryData_def
          client_200_def two_boards_def Let_def)
  show ?thesis
    using h patched onError_restores_snapshot [OF h, of "''b1''"] by simp
qed

section \<open>Cancellation before the patch\<close>

lemma matches_refl: "matches key key"
  by (simp add: matches_def)

lemma onMutate_trace:
  "trace (fst (onMutate key c targetId)) = trace c @ [Cancelled key]
   \<or> (\<exists>v. trace (fst (onMutate key c targetId)) = trace c @ [Cancelled key, DataSet key v])"
  by (simp add: onMutate_def getQueryData_def cancelQueries_def setQueryData_def Let_def
           split: option.splits response.splits)

lemma onMutate_fetching:
  "fetching (fst (onMutate key c targetId)) k = (if matches key k then [] else fetching c k)"
  by (simp add: onMutate_def getQueryData_def cancelQueries_def setQueryData_def Let_def
           split: option.splits response.splits)

text \<open>
  C3. A submit calls \<^verbatim>\<open>cancelQueries\<close> on the key first: the call is the first entry the
  submit adds to the trace, before the write of the patch if there is one; the snapshot
  is read from the client as it is after the cancellation; and after the submit no read
  is in flight for the key (or for a key it is a prefix of), so the response of any read
  that arrives afterwards is ignored and the client, patched value included, stays as
  the submit left it.
\<close>

theorem onMutate_cancels_before_patch:
  "(trace (fst (onMutate key c targetId)) = trace c @ [Cancelled key]
      \<or> (\<exists>v. trace (fst (onMutate key c targetId)) = trace c @ [Cancelled key, DataSet key v]))
   \<and> previous (snd (onMutate key c targetId)) = getQueryData (cancelQueries c key) key
   \<and> fetching (cancelQueries c key) key = []
   \<and> fetching (fst (onMutate key c targetId)) key = []
   \<and> readResolved (fst (onMutate key c targetId)) key n v = fst (onMutate key c targetId)"
proof -
  have snapshot: "previous (snd (onMutate key c targetId)) = getQueryData (cancelQueries c key) key"
    by (simp add: onMutate_snapshot getQueryData_def cancelQueries_def)
  have cancelled: "fetching (cancelQueries c key) key = []"
    by (simp add: cancelQueries_def matches_refl)
  have none: "fetching (fst (onMutate key c targetId)) key = []"
    by (simp add: onMutate_fetching matches_refl)
  have ignored: "readResolved (fst (onMutate key c targetId)) key n v = fst (onMutate key c targetId)"
    by (simp add: readResolved_def none)
  show ?thesis using onMutate_trace [of key c targetId] snapshot cancelled none ignored by simp
qed

theorem onMutate_cancels_before_patch_witness:
  "7 \<in> set (fetching client_200 boardsKey)
   \<and> getQueryData (readResolved client_200 boardsKey 7 (Response200 two_boards [])) boardsKey
       = Some (Response200 two_boards [])
   \<and> readResolved (fst (onMutate boardsKey client_200 ''b1'')) boardsKey 7 (Response200 two_boards [])
       = fst (onMutate boardsKey client_200 ''b1'')
   \<and> getQueryData (fst (onMutate boardsKey client_200 ''b1'')) boardsKey
       \<noteq> Some (Response200 two_boards [])"
proof -
  have inflight: "7 \<in> set (fetching client_200 boardsKey)"
    by (simp add: client_200_def)
  have arrives: "getQueryData (readResolved client_200 boardsKey 7 (Response200 two_boards [])) boardsKey
       = Some (Response200 two_boards [])"
    by (simp add: readResolved_def getQueryData_def client_200_def)
  have patched: "getQueryData (fst (onMutate boardsKey client_200 ''b1'')) boardsKey
       \<noteq> Some (Response200 two_boards [])"
    by (simp add: onMutate_def getQueryData_def cancelQueries_def setQueryData_def
          client_200_def two_boards_def Let_def)
  show ?thesis
    using inflight arrives patched
      onMutate_cancels_before_patch [of boardsKey client_200 "''b1''" 7 "Response200 two_boards []"]
    by simp
qed

section \<open>Invalidation when the call settles\<close>

text \<open>
  C9. When the remote call of a delete settles, with success or with failure, the last
  call made on the client is \<^verbatim>\<open>invalidateQueries\<close> on the key and the key is marked stale;
  after a failure with a snapshot the cached value is the snapshot and the key is marked
  stale all the same.
\<close>

theorem settle_invalidates:
  "invalidated (queryClient (settle key Succeeded ctx st)) key
   \<and> invalidated (queryClient (settle key Failed ctx st)) key
   \<and> (\<exists>pre. trace (queryClient (settle key Succeeded ctx st)) = pre @ [Invalidated key])
   \<and> (\<exists>pre. trace (queryClient (settle key Failed ctx st)) = pre @ [Invalidated key])
   \<and> (previous cx = Some p \<longrightarrow>
        getQueryData (queryClient (settle key Failed (Some cx) st)) key = Some p
        \<and> invalidated (queryClient (settle key Failed (Some cx) st)) key)"
  by (simp add: settle_def onSettled_def onSuccess_def onError_def invalidateQueries_def
        setQueryData_def getQueryData_def matches_refl Let_def split: option.splits)

theorem settle_invalidates_witness:
  "previous (snd (onMutate boardsKey client_200 ''b1'')) = Some (Response200 two_boards [])
   \<and> getQueryData (queryClient (settle boardsKey Failed (Some (snd (onMutate boardsKey client_200 ''b1'')))
        \<lparr>queryClient = fst (onMutate boardsKey client_200 ''b1''), deleteTarget = None, pending = []\<rparr>))
        boardsKey = Some (Response200 two_boards [])
   \<and> invalidated (queryClient (settle boardsKey Failed (Some (snd (onMutate boardsKey client_200 ''b1'')))
        \<lparr>queryClient = fst (onMutate boardsKey client_200 ''b1''), deleteTarget = None, pending = []\<rparr>))
        boardsKey"
proof -
  have h: "previous (snd (onMutate boardsKey client_200 ''b1'')) = Some (Response200 two_boards [])"
    by (simp add: onMutate_snapshot getQueryData_def client_200_def)
  show ?thesis
    using h settle_invalidates [of boardsKey None
        "\<lparr>queryClient = fst (onMutate boardsKey client_200 ''b1''), deleteTarget = None, pending = []\<rparr>"
        "snd (onMutate boardsKey client_200 ''b1'')" "Response200 two_boards []"]
    by simp
qed

section \<open>Submitting without a cached 200 response\<close>

lemma onMutate_no_patch:
  assumes "case getQueryData c key of None \<Rightarrow> True | Some r \<Rightarrow> status r \<noteq> 200"
  shows "onMutate key c targetId = (cancelQueries c key, \<lparr>previous = getQueryData c key\<rparr>)"
  using assms
  by (auto simp add: onMutate_def getQueryData_def cancelQueries_def Let_def
           split: option.splits response.splits)

text \<open>
  The claim C10 fails where the cached value is a response that is not a 200 response:
  the submit returns that response as the snapshot, and the error handler writes it to
  the key, as the trace shows.
\<close>

theorem onError_writes_non200_snapshot:
  "getQueryData client_422 boardsKey = Some (Response422 ''detail'' [])
   \<and> status (Response422 ''detail'' []) \<noteq> 200
   \<and> previous (snd (onMutate boardsKey client_422 ''b1'')) = Some (Response422 ''detail'' [])
   \<and> trace (fst (onMutate boardsKey client_422 ''b1'')) = [Cancelled boardsKey]
   \<and> trace (onError boardsKey (fst (onMutate boardsKey client_422 ''b1''))
               (Some (snd (onMutate boardsKey client_422 ''b1''))))
       = [Cancelled boardsKey, DataSet boardsKey (Response422 ''detail'' [])]"
  by (simp add: onMutate_def onError_def getQueryData_def cancelQueries_def setQueryData_def
        client_422_def Let_def)

text \<open>
  C10, amended. When the cached value of the key is absent or is not a 200 response, the
  submit applies no patch: it only cancels the reads in flight, so the cached values,
  the stale marks and the writes in the trace are as before. If the value was absent
  there is no snapshot and the error handler leaves the client as it is. If the value
  was a response that is not a 200 response, that response is the snapshot and the error
  handler writes it back to the key.
\<close>

theorem onMutate_without_200:
  assumes "case getQueryData c key of None \<Rightarrow> True | Some r \<Rightarrow> status r \<noteq> 200"
  shows "cache (fst (onMutate key c targetId)) = cache c
         \<and> invalidated (fst (onMutate key c targetId)) = invalidated c
         \<and> trace (fst (onMutate key c targetId)) = trace c @ [Cancelled key]
         \<and> previous (snd (onMutate key c targetId)) = getQueryData c key
         \<and> (getQueryData c key = None \<longrightarrow>
               onError key c' (Some (snd (onMutate key c targetId))) = c')
         \<and> (getQueryData c key = Some r \<longrightarrow>
               onError key c' (Some (snd (onMutate key c targetId))) = setQueryData c' key r)"
  by (simp add: onMutate_no_patch [OF assms] cancelQueries_def onError_def)

theorem onMutate_without_200_witness:
  "(case getQueryData client_empty boardsKey of None \<Rightarrow> True | Some r \<Rightarrow> status r \<noteq> 200)
   \<and> getQueryData client_empty boardsKey = None
   \<and> cache (fst (onMutate boardsKey client_empty ''b1'')) = cache client_empty
   \<and> onError boardsKey (fst (onMutate boardsKey client_empty ''b1''))
        (Some (snd (onMutate boardsKey client_empty ''b1'')))
       = fst (onMutate boardsKey client_empty ''b1'')
   \<and> (case getQueryData client_422 boardsKey of None \<Rightarrow> True | Some r \<Rightarrow> status r \<noteq> 200)
   \<and> getQueryData client_422 boardsKey = Some (Response422 ''detail'' [])
   \<and> cache (fst (onMutate boardsKey client_422 ''b1'')) = cache client_422
   \<and> onError boardsKey (fst (onMutate boardsKey client_422 ''b1''))
        (Some (snd (onMutate boardsKey client_422 ''b1'')))
       = setQueryData (fst (onMutate boardsKey client_422 ''b1'')) boardsKey
           (Response422 ''detail'' [])"
proof -
  have e: "case getQueryData client_empty boardsKey of None \<Rightarrow> True | Some r \<Rightarrow> status r \<noteq> 200"
    and e': "getQueryData client_empty boardsKey = None"
    by (simp_all add: getQueryData_def client_empty_def)
  have f: "case getQueryData client_422 boardsKey of None \<Rightarrow> True | Some r \<Rightarrow> status r \<noteq> 200"
    and f': "getQueryData client_422 boardsKey = Some (Response422 ''detail'' [])"
    by (simp_all add: getQueryData_def client_422_def)
  show ?thesis
    using e e' f f'
      onMutate_without_200 [OF e, of "''b1''" "fst (onMutate boardsKey client_empty ''b1'')"
         "Response422 ''detail'' []"]
      onMutate_without_200 [OF f, of "''b1''" "fst (onMutate boardsKey client_422 ''b1'')"
         "Response422 ''detail'' []"]
    by simp
qed

section \<open>Repeated submits\<close>

lemma onMutate_split:
  "onMutate key c targetId = onMutate_resume key (cancelQueries c key) targetId"
  by (simp add: onMutate_def onMutate_resume_def Let_def)

lemma length_attach_context: "length (attach_context ctx ps) = length ps"
  by (induction ctx ps rule: attach_context.induct) simp_all

lemma pending_settle: "pending (settle key out ctx st) = pending st"
  by (cases out) (simp_all add: settle_def onSuccess_def Let_def)

lemma step_keeps_one_pending:
  "length (pending st) \<le> 1 \<Longrightarrow> length (pending (step key st ev)) \<le> 1"
proof (cases ev)
  case (PickRow row)
  assume "length (pending st) \<le> 1"
  with PickRow show ?thesis by simp
next
  case CloseDialog
  assume "length (pending st) \<le> 1"
  with CloseDialog show ?thesis by simp
next
  case ConfirmClick
  assume "length (pending st) \<le> 1"
  with ConfirmClick show ?thesis
    by (simp add: confirmClick_def isPending_def handleDelete_def mutate_def
          split: option.splits)
next
  case OnMutateReturned
  assume "length (pending st) \<le> 1"
  with OnMutateReturned show ?thesis
    by (simp add: onMutateReturned_def length_attach_context split_beta split: option.splits)
next
  case (Settled out)
  assume "length (pending st) \<le> 1"
  with Settled show ?thesis
    by (auto simp add: mutationSettled_def pending_settle
          split: list.splits prod.splits option.splits)
qed

lemma run_keeps_one_pending:
  "length (pending st) \<le> 1 \<Longrightarrow> length (pending (foldl (step key) st evs)) \<le> 1"
proof (induction evs arbitrary: st)
  case Nil
  then show ?case by simp
next
  case (Cons ev evs)
  from step_keeps_one_pending [OF Cons.prems]
  have "length (pending (step key st ev)) \<le> 1" .
  from Cons.IH [OF this] show ?case by simp
qed

lemma click_then_return:
  assumes "pending st = []" and "deleteTarget st = Some t"
  shows "onMutateReturned key (confirmClick key st)
           = st\<lparr>queryClient := fst (onMutate key (queryClient st) (item_id t)),
                 pending := [(item_id t, Some (snd (onMutate key (queryClient st) (item_id t))))]\<rparr>"
  using assms
  by (simp add: confirmClick_def isPending_def handleDelete_def mutate_def onMutateReturned_def
        onMutate_split split_beta)

text \<open>
  The claim C4 fails: with a row picked and the delete of that row pending after a first
  click on the confirm button, a second click is not answered with an error. The button
  is disabled, no handler runs, and the page is exactly as the first click left it, with
  the one mutation pending.
\<close>

theorem second_click_ignored:
  "isPending (confirmClick boardsKey picked_b1)
   \<and> deleteTarget (confirmClick boardsKey picked_b1) = Some \<lparr>item_id = ''b1''\<rparr>
   \<and> pending (confirmClick boardsKey picked_b1) = [(''b1'', None)]
   \<and> confirmClick boardsKey (confirmClick boardsKey picked_b1) = confirmClick boardsKey picked_b1"
  by (simp add: confirmClick_def isPending_def handleDelete_def mutate_def picked_b1_def)

text \<open>
  C4, amended. The pages have no ConflictError. They keep a second submit from happening
  by disabling the confirm button while a delete mutation is pending: a click then
  changes nothing and raises nothing. A click with no mutation pending and a row picked
  submits one mutation for the id of that row, which applies the patch of \<^verbatim>\<open>onMutate\<close> when
  nothing comes in between; with no row picked it does nothing. So from a page with no
  mutation pending, whatever rows are picked, clicks made and calls settled, at most one
  delete mutation is pending at any time.
\<close>

theorem confirmClick_at_most_one_pending:
  "(isPending st \<longrightarrow> confirmClick key st = st)
   \<and> (\<not> isPending st \<and> deleteTarget st = Some t \<longrightarrow>
         pending (confirmClick key st) = [(item_id t, None)]
         \<and> queryClient (confirmClick key st) = cancelQueries (queryClient st) key
         \<and> onMutateReturned key (confirmClick key st)
             = st\<lparr>queryClient := fst (onMutate key (queryClient st) (item_id t)),
                   pending := [(item_id t, Some (snd (onMutate key (queryClient st) (item_id t))))]\<rparr>)
   \<and> (\<not> isPending st \<and> deleteTarget st = None \<longrightarrow> confirmClick key st = st)
   \<and> (\<not> isPending st \<longrightarrow> length (pending (foldl (step key) st evs)) \<le> 1)"
proof -
  have disabled: "isPending st \<longrightarrow> confirmClick key st = st"
    by (simp add: confirmClick_def)
  have submits: "\<not> isPending st \<and> deleteTarget st = Some t \<longrightarrow>
         pending (confirmClick key st) = [(item_id t, None)]
         \<and> queryClient (confirmClick key st) = cancelQueries (queryClient st) key
         \<and> onMutateReturned key (confirmClick key st)
             = st\<lparr>queryClient := fst (onMutate key (queryClient st) (item_id t)),
                   pending := [(item_id t, Some (snd (onMutate key (queryClient st) (item_id t))))]\<rparr>"
  proof
    assume a: "\<not> isPending st \<and> deleteTarget st = Some t"
    then have p: "pending st = []" and d: "deleteTarget st = Some t"
      by (simp_all add: isPending_def)
    have "pending (confirmClick key st) = [(item_id t, None)]"
      "queryClient (confirmClick key st) = cancelQueries (queryClient st) key"
      using p d by (simp_all add: confirmClick_def isPending_def handleDelete_def mutate_def)
    with click_then_return [OF p d, of key]
    show "pending (confirmClick key st) = [(item_id t, None)]
         \<and> queryClient (confirmClick key st) = cancelQueries (queryClient st) key
         \<and> onMutateReturned key (confirmClick key st)
             = st\<lparr>queryClient := fst (onMutate key (queryClient st) (item_id t)),
                   pending := [(item_id t, Some (snd (onMutate key (queryClient st) (item_id t))))]\<rparr>"
      by simp
  qed
  have unpicked: "\<not> isPending st \<and> deleteTarget st = None \<longrightarrow> confirmClick key st = st"
    by (simp add: confirmClick_def handleDelete_def)
  have one: "\<not> isPending st \<longrightarrow> length (pending (foldl (step key) st evs)) \<le> 1"
  proof
    assume "\<not> isPending st"
    then have "length (pending st) \<le> 1"
      by (simp add: isPending_def)
    then show "length (pending (foldl (step key) st evs)) \<le> 1"
      by (rule run_keeps_one_pending)
  qed
  from disabled submits unpicked one show ?thesis by blast
qed

theorem confirmClick_at_most_one_pending_witness:
  "\<not> isPending picked_b1 \<and> deleteTarget picked_b1 = Some \<lparr>item_id = ''b1''\<rparr>
   \<and> pending (confirmClick boardsKey picked_b1) = [(''b1'', None)]
   \<and> isPending (confirmClick boardsKey picked_b1)
   \<and> confirmClick boardsKey (confirmClick boardsKey picked_b1) = confirmClick boardsKey picked_b1
   \<and> length (pending (foldl (step boardsKey) picked_b1
        [ConfirmClick, ConfirmClick, OnMutateReturned, ConfirmClick, Settled Failed, ConfirmClick]))
       \<le> 1
   \<and> map fst (pending (foldl (step boardsKey) picked_b1
        [ConfirmClick, ConfirmClick, OnMutateReturned, ConfirmClick, Settled Failed, ConfirmClick]))
       = [''b1'']
   \<and> \<not> isPending (picked_b1\<lparr>deleteTarget := None\<rparr>)
   \<and> deleteTarget (picked_b1\<lparr>deleteTarget := None\<rparr>) = None
   \<and> confirmClick boardsKey (picked_b1\<lparr>deleteTarget := None\<rparr>) = picked_b1\<lparr>deleteTarget := None\<rparr>"
proof -
  let ?evs = "[ConfirmClick, ConfirmClick, OnMutateReturned, ConfirmClick, Settled Failed, ConfirmClick]
                :: unit page_event list"
  have idle: "\<not> isPending picked_b1" and row: "deleteTarget picked_b1 = Some \<lparr>item_id = ''b1''\<rparr>"
    by (simp_all add: isPending_def picked_b1_def)
  note first = confirmClick_at_most_one_pending [of picked_b1 boardsKey "\<lparr>item_id = ''b1''\<rparr>" ?evs]
  from first idle row have one: "pending (confirmClick boardsKey picked_b1) = [(''b1'', None)]"
    by simp
  then have busy: "isPending (confirmClick boardsKey picked_b1)"
    by (simp add: isPending_def)
  from confirmClick_at_most_one_pending
         [of "confirmClick boardsKey picked_b1" boardsKey "\<lparr>item_id = ''b1''\<rparr>" ?evs] busy
  have again: "confirmClick boardsKey (confirmClick boardsKey picked_b1)
                 = confirmClick boardsKey picked_b1"
    by blast
  from first idle have bound: "length (pending (foldl (step boardsKey) picked_b1 ?evs)) \<le> 1"
    by blast
  have run: "map fst (pending (foldl (step boardsKey) picked_b1 ?evs)) = [''b1'']"
    by (simp add: confirmClick_def isPending_def handleDelete_def mutate_def picked_b1_def
          onMutateReturned_def mutationSettled_def settle_def split_beta)
  have idle': "\<not> isPending (picked_b1\<lparr>deleteTarget := None\<rparr>)"
    and none: "deleteTarget (picked_b1\<lparr>deleteTarget := None\<rparr>) = None"
    by (simp_all add: isPending_def picked_b1_def)
  from confirmClick_at_most_one_pending
         [of "picked_b1\<lparr>deleteTarget := None\<rparr>" boardsKey "\<lparr>item_id = ''b1''\<rparr>" ?evs] idle' none
  have noop: "confirmClick boardsKey (picked_b1\<lparr>deleteTarget := None\<rparr>)
                = picked_b1\<lparr>deleteTarget := None\<rparr>"
    by blast
  from idle row one busy again bound run idle' none noop show ?thesis by blast
qed

section \<open>Columns of the kanban page\<close>

lemma backlog_in_STATUSES: "''backlog'' \<in> set STATUSES"
  by (simp add: STATUSES_def)

lemma distinct_STATUSES: "distinct STATUSES"
  by (simp add: STATUSES_def)

lemma column_of_in_STATUSES: "column_of t \<in> set STATUSES"
  by (simp add: column_of_def backlog_in_STATUSES split: option.splits)

lemma init_columns:
  "foldl (\<lambda>m s. m(s \<mapsto> [])) m ss = (\<lambda>s. if s \<in> set ss then Some [] else m s)"
  by (induction ss arbitrary: m) (auto simp add: fun_eq_iff)

lemma push_task_column:
  assumes "m = (\<lambda>s. if s \<in> set STATUSES then Some (f s) else None)"
  shows "push_task m t =
           (\<lambda>s. if s \<in> set STATUSES
                 then Some (f s @ (if column_of t = s then [t] else []))
                 else None)"
  using assms backlog_in_STATUSES
  by (auto simp add: push_task_def column_of_def fun_eq_iff Let_def split: option.splits)

lemma push_tasks_columns:
  "foldl push_task (\<lambda>s. if s \<in> set STATUSES then Some (f s) else None) ts =
     (\<lambda>s. if s \<in> set STATUSES
           then Some (f s @ filter (\<lambda>t. column_of t = s) ts)
           else None)"
proof (induction ts arbitrary: f)
  case Nil
  show ?case by (simp add: fun_eq_iff)
next
  case (Cons t ts)
  have step: "push_task (\<lambda>s. if s \<in> set STATUSES then Some (f s) else None) t =
           (\<lambda>s. if s \<in> set STATUSES
                 then Some (f s @ (if column_of t = s then [t] else []))
                 else None)"
    by (rule push_task_column) simp
  show ?case
    by (simp add: step Cons.IH [of "\<lambda>s. f s @ (if column_of t = s then [t] else [])"] fun_eq_iff)
qed

lemma sort_columns:
  "distinct ss \<Longrightarrow>
   foldl (sort_column cmp) m ss =
     (\<lambda>s. if s \<in> set ss then map_option (array_sort cmp) (m s) else m s)"
proof (induction ss arbitrary: m)
  case Nil
  show ?case by simp
next
  case (Cons a ss)
  then have d: "distinct ss" and a: "a \<notin> set ss" by simp_all
  have "foldl (sort_column cmp) m (a # ss) = foldl (sort_column cmp) (sort_column cmp m a) ss"
    by simp
  also have "\<dots> = (\<lambda>s. if s \<in> set ss then map_option (array_sort cmp) (sort_column cmp m a s)
                         else sort_column cmp m a s)"
    by (rule Cons.IH [OF d])
  also have "\<dots> = (\<lambda>s. if s \<in> set (a # ss) then map_option (array_sort cmp) (m s) else m s)"
    using a by (auto simp add: sort_column_def fun_eq_iff split: option.splits)
  finally show ?case .
qed

lemma tasksByStatus_eq:
  "tasksByStatus lc filtered s =
     (if s \<in> set STATUSES
      then Some (array_sort (compareFn lc) (filter (\<lambda>t. column_of t = s) filtered))
      else None)"
proof -
  have m0: "foldl (\<lambda>m s. m(s \<mapsto> [])) Map.empty STATUSES
              = (\<lambda>s. if s \<in> set STATUSES then Some ((\<lambda>_. []) s) else None)"
    by (simp add: init_columns)
  show ?thesis
    unfolding tasksByStatus_def Let_def m0 push_tasks_columns sort_columns [OF distinct_STATUSES]
    by simp
qed

lemma mset_sort_insert: "mset (sort_insert cmp x xs) = add_mset x (mset xs)"
  by (induction xs) auto

lemma mset_array_sort: "mset (array_sort cmp xs) = mset xs"
  unfolding array_sort_def by (induction xs) (auto simp add: mset_sort_insert)

lemma set_array_sort: "set (array_sort cmp xs) = set xs"
  using mset_array_sort [of cmp xs] by (metis set_mset_mset)

text \<open>
  The claim C6 fails on \<^verbatim>\<open>tasksByStatus\<close>: a task whose status is blocked is in the column
  blocked, which is none of inbox, in_progress, review and done; a task whose status is
  not recognised is in the column backlog; and the map has no column inbox.
\<close>

theorem tasksByStatus_not_four_columns:
  "tasksByStatus codeunit_compare [task_blocked, task_archived] ''blocked'' = Some [task_blocked]
   \<and> ''blocked'' \<notin> set [''inbox'', ''in_progress'', ''review'', ''done'']
   \<and> ''archived'' \<notin> set STATUSES
   \<and> tasksByStatus codeunit_compare [task_blocked, task_archived] ''backlog'' = Some [task_archived]
   \<and> tasksByStatus codeunit_compare [task_blocked, task_archived] ''inbox'' = None"
  by (simp add: tasksByStatus_eq column_of_def STATUSES_def array_sort_def
        task_blocked_def task_archived_def)

text \<open>
  C6, amended. \<^verbatim>\<open>tasksByStatus\<close> has the six columns backlog, ready, in_progress, review,
  blocked and done. The column of a task depends on its status field only: it is the
  status when that is one of the six, and backlog when the status is missing or not
  recognised. Each column holds, sorted, exactly the tasks of the list with that column,
  so every task of the list is in one column and in no other.
\<close>

theorem tasksByStatus_columns:
  "tasksByStatus lc filtered s =
     (if s \<in> set STATUSES
      then Some (array_sort (compareFn lc) (filter (\<lambda>t. column_of t = s) filtered))
      else None)
   \<and> mset (array_sort (compareFn lc) (filter (\<lambda>t. column_of t = s) filtered))
       = mset (filter (\<lambda>t. column_of t = s) filtered)
   \<and> column_of t \<in> set STATUSES
   \<and> (task_status t = task_status t' \<longrightarrow> column_of t = column_of t')
   \<and> (task_status t = Some x \<and> x \<in> set STATUSES \<longrightarrow> column_of t = x)
   \<and> (task_status t = None \<or> (task_status t = Some x \<and> x \<notin> set STATUSES) \<longrightarrow>
         column_of t = ''backlog'')
   \<and> (t \<in> set filtered \<longrightarrow>
         (\<exists>arr. tasksByStatus lc filtered (column_of t) = Some arr \<and> t \<in> set arr)
         \<and> (\<forall>s' arr. tasksByStatus lc filtered s' = Some arr \<and> t \<in> set arr \<longrightarrow> s' = column_of t))"
proof -
  have solely: "task_status t = task_status t' \<longrightarrow> column_of t = column_of t'"
    by (simp add: column_of_def)
  have known: "task_status t = Some x \<and> x \<in> set STATUSES \<longrightarrow> column_of t = x"
    by (simp add: column_of_def)
  have fallback: "task_status t = None \<or> (task_status t = Some x \<and> x \<notin> set STATUSES) \<longrightarrow>
         column_of t = ''backlog''"
    by (auto simp add: column_of_def)
  have member: "t \<in> set filtered \<longrightarrow>
         (\<exists>arr. tasksByStatus lc filtered (column_of t) = Some arr \<and> t \<in> set arr)
         \<and> (\<forall>s' arr. tasksByStatus lc filtered s' = Some arr \<and> t \<in> set arr \<longrightarrow> s' = column_of t)"
    by (auto simp add: tasksByStatus_eq column_of_in_STATUSES set_array_sort split: if_splits)
  have sorted: "mset (array_sort (compareFn lc) (filter (\<lambda>t. column_of t = s) filtered))
       = mset (filter (\<lambda>t. column_of t = s) filtered)"
    by (rule mset_array_sort)
  from tasksByStatus_eq [of lc filtered s] sorted column_of_in_STATUSES [of t]
    solely known fallback member
  show ?thesis by blast
qed

theorem tasksByStatus_columns_witness:
  "task_status task_blocked = Some ''blocked'' \<and> ''blocked'' \<in> set STATUSES
   \<and> column_of task_blocked = ''blocked''
   \<and> task_status task_archived = Some ''archived'' \<and> ''archived'' \<notin> set STATUSES
   \<and> column_of task_archived = ''backlog''
   \<and> task_archived \<in> set [task_blocked, task_archived]
   \<and> (\<exists>arr. tasksByStatus codeunit_compare [task_blocked, task_archived] ''backlog'' = Some arr
            \<and> task_archived \<in> set arr)"
proof -
  have a: "task_status task_blocked = Some ''blocked''" "''blocked'' \<in> set STATUSES"
    by (simp_all add: task_blocked_def STATUSES_def)
  have b: "task_status task_archived = Some ''archived''" "''archived'' \<notin> set STATUSES"
    by (simp_all add: task_archived_def STATUSES_def)
  have c: "task_archived \<in> set [task_blocked, task_archived]"
    by simp
  note blocked = tasksByStatus_columns [of codeunit_compare "[task_blocked, task_archived]"
        "''blocked''" task_blocked task_blocked "''blocked''"]
  note archived = tasksByStatus_columns [of codeunit_compare "[task_blocked, task_archived]"
        "''backlog''" task_archived task_archived "''archived''"]
  from blocked a have col_blocked: "column_of task_blocked = ''blocked''"
    by blast
  from archived b have col_archived: "column_of task_archived = ''backlog''"
    by blast
  from archived c
  have "\<exists>arr. tasksByStatus codeunit_compare [task_blocked, task_archived] (column_of task_archived)
                = Some arr \<and> task_archived \<in> set arr"
    by blast
  then have inside: "\<exists>arr. tasksByStatus codeunit_compare [task_blocked, task_archived] ''backlog''
                = Some arr \<and> task_archived \<in> set arr"
    by (simp only: col_archived)
  from a b c col_blocked col_archived inside show ?thesis by blast
qed

section \<open>Triage of the review column\<close>

lemma classify_review:
  "bt_status t = ''review'' \<Longrightarrow>
   classify t = (if is_blocked t then Some Blocked
                 else if 0 < approvals_pending_count t then Some Approval_needed
                 else Some Lead_review)"
  by (simp add: classify_def triage_rules_def)

lemma review_view_counts:
  "length (review_view All tasks) =
     length (review_view (Only Blocked) tasks)
     + length (review_view (Only Approval_needed) tasks)
     + length (review_view (Only Lead_review) tasks)"
proof -
  have "length (filter (\<lambda>t. classify t = Some Blocked) (review_column tasks))
        + length (filter (\<lambda>t. classify t = Some Approval_needed) (review_column tasks))
        + length (filter (\<lambda>t. classify t = Some Lead_review) (review_column tasks))
        = length (review_column tasks)"
  proof (induction tasks)
    case Nil
    show ?case by (simp add: review_column_def)
  next
    case (Cons t tasks)
    then show ?case
      by (simp add: review_column_def classify_review)
  qed
  then show ?thesis by (simp add: review_view_def)
qed

text \<open>
  C5. A task of the review column is classified into exactly one bucket, the first of
  blocked, approval_needed and lead_review whose rule matches: a blocked task with
  pending approvals is blocked and is not approval_needed. The view \<^verbatim>\<open>all\<close> is the review
  column; a review task of the list is in the view of its own bucket and of no other
  bucket, and the counts of the three buckets add up to the count of \<^verbatim>\<open>all\<close>.
\<close>

theorem classify_first_match:
  assumes "bt_status t = ''review''"
  shows "(\<exists>b. classify t = Some b)
         \<and> classify t = (if is_blocked t then Some Blocked
                         else if 0 < approvals_pending_count t then Some Approval_needed
                         else Some Lead_review)
         \<and> classify t = first_match triage_rules t
         \<and> map fst triage_rules = [Blocked, Approval_needed, Lead_review]
         \<and> (is_blocked t \<and> 0 < approvals_pending_count t \<longrightarrow>
               classify t = Some Blocked \<and> classify t \<noteq> Some Approval_needed)
         \<and> review_view All tasks = filter (\<lambda>u. bt_status u = ''review'') tasks
         \<and> set (review_view All tasks) = {u \<in> set tasks. bt_status u = ''review''}
         \<and> (t \<in> set tasks \<longrightarrow>
               (\<forall>b. t \<in> set (review_view (Only b) tasks) \<longleftrightarrow> classify t = Some b))
         \<and> length (review_view All tasks) =
               length (review_view (Only Blocked) tasks)
               + length (review_view (Only Approval_needed) tasks)
               + length (review_view (Only Lead_review) tasks)"
proof -
  note c = classify_review [OF assms]
  have some: "\<exists>b. classify t = Some b"
    by (simp add: c)
  have rules: "classify t = first_match triage_rules t"
    using assms by (simp add: classify_def)
  have order: "map fst triage_rules = [Blocked, Approval_needed, Lead_review]"
    by (simp add: triage_rules_def)
  have both: "is_blocked t \<and> 0 < approvals_pending_count t \<longrightarrow>
               classify t = Some Blocked \<and> classify t \<noteq> Some Approval_needed"
    by (simp add: c)
  have all: "review_view All tasks = filter (\<lambda>u. bt_status u = ''review'') tasks"
    by (simp add: review_view_def review_column_def)
  have all_set: "set (review_view All tasks) = {u \<in> set tasks. bt_status u = ''review''}"
    by (simp add: all)
  have own: "t \<in> set tasks \<longrightarrow>
               (\<forall>b. t \<in> set (review_view (Only b) tasks) \<longleftrightarrow> classify t = Some b)"
    using assms by (simp add: review_view_def review_column_def)
  from some c rules order both all all_set own review_view_counts [of tasks]
  show ?thesis by blast
qed

theorem classify_first_match_witness:
  "bt_status review_both = ''review''
   \<and> is_blocked review_both \<and> 0 < approvals_pending_count review_both
   \<and> classify review_both = Some Blocked \<and> classify review_both \<noteq> Some Approval_needed
   \<and> review_both \<in> set [review_blocked, review_approval, review_lead, review_both]
   \<and> review_both \<in> set (review_view (Only Blocked)
                            [review_blocked, review_approval, review_lead, review_both])
   \<and> review_both \<notin> set (review_view (Only Approval_needed)
                            [review_blocked, review_approval, review_lead, review_both])
   \<and> review_view All [review_blocked, review_approval, review_lead]
       = [review_blocked, review_approval, review_lead]
   \<and> review_view (Only Blocked) [review_blocked, review_approval, review_lead] = [review_blocked]
   \<and> review_view (Only Approval_needed) [review_blocked, review_approval, review_lead]
       = [review_approval]
   \<and> review_view (Only Lead_review) [review_blocked, review_approval, review_lead]
       = [review_lead]"
proof -
  have scenario:
    "review_view All [review_blocked, review_approval, review_lead]
       = [review_blocked, review_approval, review_lead]"
    "review_view (Only Blocked) [review_blocked, review_approval, review_lead] = [review_blocked]"
    "review_view (Only Approval_needed) [review_blocked, review_approval, review_lead]
       = [review_approval]"
    "review_view (Only Lead_review) [review_blocked, review_approval, review_lead]
       = [review_lead]"
    by (simp_all add: review_view_def review_column_def classify_def triage_rules_def
          review_blocked_def review_approval_def review_lead_def)
  have r: "bt_status review_both = ''review''"
    and b: "is_blocked review_both \<and> 0 < approvals_pending_count review_both"
    by (simp_all add: review_both_def)
  have m: "review_both \<in> set [review_blocked, review_approval, review_lead, review_both]"
    by simp
  note T = classify_first_match [OF r, of "[review_blocked, review_approval, review_lead, review_both]"]
  from T b have cls: "classify review_both = Some Blocked \<and> classify review_both \<noteq> Some Approval_needed"
    by blast
  from T m have own: "\<forall>b. review_both \<in> set (review_view (Only b)
            [review_blocked, review_approval, review_lead, review_both])
          \<longleftrightarrow> classify review_both = Some b"
    by blast
  from r b m cls own scenario show ?thesis by blast
qed

section \<open>Dropping a task on a column\<close>

text \<open>
  C7. A drop whose destination differs from the source status issues exactly one
  mutation, for the dropped task, whose only changed field is the status, set to the
  destination; a drop on the column of the source status issues none.
\<close>

theorem onDrop_mutations:
  "(sourceStatus \<noteq> destinationStatus \<longrightarrow>
      onDrop taskId sourceStatus destinationStatus
        = [\<lparr>mutation_task = taskId, changed_fields = [(''status'', destinationStatus)]\<rparr>]
      \<and> length (onDrop taskId sourceStatus destinationStatus) = 1)
   \<and> (sourceStatus = destinationStatus \<longrightarrow>
      onDrop taskId sourceStatus destinationStatus = [])"
  by (simp add: onDrop_def)

theorem onDrop_mutations_witness:
  "''inbox'' \<noteq> ''done''
   \<and> onDrop ''t1'' ''inbox'' ''done''
       = [\<lparr>mutation_task = ''t1'', changed_fields = [(''status'', ''done'')]\<rparr>]
   \<and> onDrop ''t1'' ''inbox'' ''inbox'' = []"
  using onDrop_mutations [of "''inbox''" "''done''" "''t1''"]
        onDrop_mutations [of "''inbox''" "''inbox''" "''t1''"]
  by simp

section \<open>Merging a stream event twice\<close>

lemma map_id_replace:
  "map feed_id (replace_in_place e xs) = map feed_id xs"
  by (induction xs) auto

lemma ids_replace: "feed_id ` set (replace_in_place e xs) = feed_id ` set xs"
  by (simp flip: set_map add: map_id_replace)

lemma length_replace: "length (replace_in_place e xs) = length xs"
  by (induction xs) auto

lemma replace_at_first:
  "feed_id e \<in> set (map feed_id xs) \<Longrightarrow>
   \<exists>i<length xs. feed_id (xs ! i) = feed_id e
       \<and> (\<forall>j<i. feed_id (xs ! j) \<noteq> feed_id e)
       \<and> replace_in_place e xs = xs[i := e]"
proof (induction xs)
  case Nil
  then show ?case by simp
next
  case (Cons x xs)
  show ?case
  proof (cases "feed_id x = feed_id e")
    case True
    then have "feed_id ((x # xs) ! 0) = feed_id e \<and> (\<forall>j<0. feed_id ((x # xs) ! j) \<noteq> feed_id e)
               \<and> replace_in_place e (x # xs) = (x # xs)[0 := e]"
      by simp
    then show ?thesis by blast
  next
    case False
    with Cons.prems have "feed_id e \<in> set (map feed_id xs)" by auto
    from Cons.IH [OF this] obtain i where i: "i < length xs" "feed_id (xs ! i) = feed_id e"
        "\<forall>j<i. feed_id (xs ! j) \<noteq> feed_id e" "replace_in_place e xs = xs[i := e]"
      by blast
    have before: "\<forall>j<Suc i. feed_id ((x # xs) ! j) \<noteq> feed_id e"
    proof (intro allI impI)
      fix j assume "j < Suc i"
      then show "feed_id ((x # xs) ! j) \<noteq> feed_id e"
        using False i(3) by (cases j) auto
    qed
    have "Suc i < length (x # xs) \<and> feed_id ((x # xs) ! Suc i) = feed_id e
          \<and> replace_in_place e (x # xs) = (x # xs)[Suc i := e]"
      using False i by simp
    with before show ?thesis by blast
  qed
qed

lemma set_insert_newest_first:
  "set (insert_newest_first e xs) = insert e (set xs)"
  by (induction xs) auto

lemma map_id_insert_distinct:
  "feed_id e \<notin> set (map feed_id xs) \<Longrightarrow> distinct (map feed_id xs) \<Longrightarrow>
   distinct (map feed_id (insert_newest_first e xs))"
  by (induction xs) (auto simp add: set_insert_newest_first)

lemma replace_inserted:
  "feed_id e \<notin> set (map feed_id xs) \<Longrightarrow>
   replace_in_place e (insert_newest_first e xs) = insert_newest_first e xs"
  by (induction xs) auto

lemma replace_replaced:
  "replace_in_place e (replace_in_place e xs) = replace_in_place e xs"
  by (induction xs) auto

lemma merged_has_id:
  "feed_id e \<in> set (map feed_id (entry_data (merge_event e q)))"
  by (simp add: merge_event_def ids_replace set_insert_newest_first)

lemma merge_event_distinct:
  "distinct (map feed_id (entry_data q)) \<Longrightarrow>
   distinct (map feed_id (entry_data (merge_event e q)))"
  by (simp add: merge_event_def map_id_replace map_id_insert_distinct)

lemma merge_event_again:
  assumes "feed_id e' = feed_id e"
  shows "merge_event e' (merge_event e q)
           = (merge_event e q)\<lparr>entry_data := replace_in_place e' (entry_data (merge_event e q))\<rparr>"
  using merged_has_id [of e q] assms by (simp add: merge_event_def [of e'])

lemma merge_event_same: "merge_event e (merge_event e q) = merge_event e q"
proof -
  have "replace_in_place e (entry_data (merge_event e q)) = entry_data (merge_event e q)"
    by (simp add: merge_event_def replace_inserted replace_replaced)
  then show ?thesis
    by (simp add: merge_event_again [of e e q])
qed

lemma count_one_of_distinct:
  "distinct (map f xs) \<Longrightarrow> a \<in> set (map f xs) \<Longrightarrow> length (filter (\<lambda>x. f x = a) xs) = 1"
proof (induction xs)
  case Nil
  then show ?case by simp
next
  case (Cons x xs)
  show ?case
  proof (cases "f x = a")
    case True
    with Cons.prems have "a \<notin> f ` set xs" by auto
    then have "filter (\<lambda>x. f x = a) xs = []"
      by (auto simp add: filter_empty_conv)
    with True show ?thesis by simp
  next
    case False
    with Cons show ?thesis by auto
  qed
qed

text \<open>
  C8. Let an event be merged, and then an event with the same id. The second delivery
  replaces the entry with that id at its position: the length of \<^verbatim>\<open>data\<close>, the ids in
  order and \<^verbatim>\<open>total\<close> are as after the first delivery. When the ids of \<^verbatim>\<open>data\<close> were
  distinct to begin with, \<^verbatim>\<open>data\<close> holds a single entry with that id. When the second
  event is the first one again, the entry is as the first delivery left it.
\<close>

theorem merge_event_idempotent:
  assumes "feed_id e' = feed_id e"
  shows "entry_total (merge_event e' (merge_event e q)) = entry_total (merge_event e q)
         \<and> length (entry_data (merge_event e' (merge_event e q)))
             = length (entry_data (merge_event e q))
         \<and> map feed_id (entry_data (merge_event e' (merge_event e q)))
             = map feed_id (entry_data (merge_event e q))
         \<and> (\<exists>i<length (entry_data (merge_event e q)).
               feed_id (entry_data (merge_event e q) ! i) = feed_id e
               \<and> entry_data (merge_event e' (merge_event e q))
                   = (entry_data (merge_event e q))[i := e'])
         \<and> (distinct (map feed_id (entry_data q)) \<longrightarrow>
               length (filter (\<lambda>x. feed_id x = feed_id e)
                         (entry_data (merge_event e' (merge_event e q)))) = 1)
         \<and> merge_event e (merge_event e q) = merge_event e q"
proof -
  note again = merge_event_again [OF assms, of q]
  have tot: "entry_total (merge_event e' (merge_event e q)) = entry_total (merge_event e q)"
    by (simp add: again)
  have len: "length (entry_data (merge_event e' (merge_event e q)))
             = length (entry_data (merge_event e q))"
    by (simp add: again length_replace)
  have ids: "map feed_id (entry_data (merge_event e' (merge_event e q)))
             = map feed_id (entry_data (merge_event e q))"
    by (simp add: again map_id_replace)
  have "feed_id e' \<in> set (map feed_id (entry_data (merge_event e q)))"
    using merged_has_id [of e q] assms by simp
  from replace_at_first [OF this]
  have pos: "\<exists>i<length (entry_data (merge_event e q)).
               feed_id (entry_data (merge_event e q) ! i) = feed_id e
               \<and> entry_data (merge_event e' (merge_event e q))
                   = (entry_data (merge_event e q))[i := e']"
    using assms by (auto simp add: again)
  have single: "distinct (map feed_id (entry_data q)) \<longrightarrow>
               length (filter (\<lambda>x. feed_id x = feed_id e)
                         (entry_data (merge_event e' (merge_event e q)))) = 1"
  proof
    assume "distinct (map feed_id (entry_data q))"
    then have "distinct (map feed_id (entry_data (merge_event e' (merge_event e q))))"
      by (simp add: ids merge_event_distinct)
    moreover have "feed_id e \<in> set (map feed_id (entry_data (merge_event e' (merge_event e q))))"
      using merged_has_id [of e q] by (simp only: ids)
    ultimately show "length (filter (\<lambda>x. feed_id x = feed_id e)
                         (entry_data (merge_event e' (merge_event e q)))) = 1"
      by (rule count_one_of_distinct)
  qed
  from tot len ids pos single merge_event_same [of e q] show ?thesis by blast
qed

theorem merge_event_idempotent_witness:
  "feed_id (comment_c3\<lparr>message := ''edited''\<rparr>) = feed_id comment_c3
   \<and> distinct (map feed_id (entry_data feed_entry))
   \<and> merge_event comment_c3 feed_entry
       = \<lparr>entry_data = [comment_c2, comment_c3, comment_c1], entry_total = 3\<rparr>
   \<and> merge_event (comment_c3\<lparr>message := ''edited''\<rparr>) (merge_event comment_c3 feed_entry)
       = \<lparr>entry_data = [comment_c2, comment_c3\<lparr>message := ''edited''\<rparr>, comment_c1], entry_total = 3\<rparr>
   \<and> length (filter (\<lambda>x. feed_id x = feed_id comment_c3)
        (entry_data (merge_event (comment_c3\<lparr>message := ''edited''\<rparr>)
                       (merge_event comment_c3 feed_entry)))) = 1"
proof -
  have same: "feed_id (comment_c3\<lparr>message := ''edited''\<rparr>) = feed_id comment_c3"
    by simp
  have d: "distinct (map feed_id (entry_data feed_entry))"
    by (simp add: feed_entry_def comment_c1_def comment_c2_def)
  have first: "merge_event comment_c3 feed_entry
       = \<lparr>entry_data = [comment_c2, comment_c3, comment_c1], entry_total = 3\<rparr>"
    by (simp add: merge_event_def feed_entry_def comment_c1_def comment_c2_def comment_c3_def)
  have second: "merge_event (comment_c3\<lparr>message := ''edited''\<rparr>) (merge_event comment_c3 feed_entry)
       = \<lparr>entry_data = [comment_c2, comment_c3\<lparr>message := ''edited''\<rparr>, comment_c1], entry_total = 3\<rparr>"
    by (simp add: first) (simp add: merge_event_def comment_c1_def comment_c2_def comment_c3_def)
  from merge_event_idempotent [OF same, of feed_entry] d
  have one: "length (filter (\<lambda>x. feed_id x = feed_id comment_c3)
        (entry_data (merge_event (comment_c3\<lparr>message := ''edited''\<rparr>)
                       (merge_event comment_c3 feed_entry)))) = 1"
    by blast
  from same d first second one show ?thesis by blast
qed

end
